theory Spec2Isabelle
  imports Main "HOL-Library.Word"
begin

section \<open>Failures\<close>

text \<open>
  The ways in which a call of the modelled C++ does not return normally.
  \<^item> \<open>Empty_stack\<close> is the exception \<^verbatim>\<open>struct empty_stack: std::exception\<close> of
    chapter-3.cpp.
  \<^item> \<open>Logic_error msg\<close> is \<^verbatim>\<open>std::logic_error(msg)\<close>.
  \<^item> \<open>Undefined_behaviour\<close> marks what the C++ standard leaves undefined and the source
    does not guard: dereferencing a null pointer, locking a \<^verbatim>\<open>std::mutex\<close> the thread
    already owns, unlocking one it does not own.
  \<^item> \<open>Blocks_forever\<close> marks a wait on a condition variable that no other thread can
    ever signal, the models being sequential.
\<close>

datatype failure = Empty_stack | Logic_error string | Undefined_behaviour | Blocks_forever


section \<open>chapter-3.cpp: the thread-safe stack\<close>

text \<open>
  \<^verbatim>\<open>std::stack<T> data\<close> is a list whose first element is the top. Every member
  function takes \<^verbatim>\<open>std::lock_guard<std::mutex> lock(m)\<close> on entry and releases it on
  every exit; in a sequential run the mutex is free at each entry, so it carries no state.
  A function returns its result together with the stack it leaves behind, so that the
  state after a thrown exception can be inspected.
\<close>

record 'a threadsafe_stack =
  stack_data :: "'a list"

definition new_stack :: "'a threadsafe_stack" where
  "new_stack = \<lparr>stack_data = []\<rparr>"

definition push_stack :: "'a \<Rightarrow> 'a threadsafe_stack \<Rightarrow> 'a threadsafe_stack" where
  "push_stack v s = s\<lparr>stack_data := v # stack_data s\<rparr>"

text \<open>\<^verbatim>\<open>std::shared_ptr<T> pop()\<close>: a shared pointer is an option, null being \<open>None\<close>.\<close>

definition pop_stack :: "'a threadsafe_stack \<Rightarrow> (failure + 'a option) \<times> 'a threadsafe_stack" where
  "pop_stack s =
     (case stack_data s of
        [] \<Rightarrow> (Inl Empty_stack, s)
      | x # below \<Rightarrow> (Inr (Some x), s\<lparr>stack_data := below\<rparr>))"

text \<open>
  \<^verbatim>\<open>void pop(T& popped_val)\<close>: the caller's variable goes in and comes back, assigned
  only when the stack held an element.
\<close>

definition pop_stack_ref ::
  "'a \<Rightarrow> 'a threadsafe_stack \<Rightarrow> (failure + unit) \<times> 'a \<times> 'a threadsafe_stack" where
  "pop_stack_ref popped_val s =
     (case stack_data s of
        [] \<Rightarrow> (Inl Empty_stack, popped_val, s)
      | x # below \<Rightarrow> (Inr (), x, s\<lparr>stack_data := below\<rparr>))"

definition empty_stack :: "'a threadsafe_stack \<Rightarrow> bool" where
  "empty_stack s = (stack_data s = [])"


section \<open>The hierarchical mutex\<close>

text \<open>
  \<^verbatim>\<open>unsigned long\<close> is 64 bits wide on the LP64 platforms the build targets;
  \<^verbatim>\<open>ULONG_MAX\<close> is then \<open>2^64 - 1\<close>. Comparison of words is unsigned.
\<close>

type_synonym ulong = "64 word"

definition ULONG_MAX :: ulong where
  "ULONG_MAX = 18446744073709551615"

text \<open>
  One object of the class: \<open>internal_mutex\<close> is \<open>True\<close> while the \<^verbatim>\<open>std::mutex\<close>
  is held.
\<close>

record hierarchical_mutex =
  internal_mutex :: bool
  hierarchy_value :: ulong
  previous_hierarchy_value :: ulong

text \<open>The three global objects of the source, by name.\<close>

datatype mutex_name = High_level_mutex | Low_level_mutex | Other_mutex

text \<open>
  The state one thread sees: its own copy of the \<^verbatim>\<open>thread_local\<close> static
  \<open>this_thread_hierarchy_value\<close>, and the global mutex objects.
\<close>

record program_state =
  this_thread_hierarchy_value :: ulong
  mutexes :: "mutex_name \<Rightarrow> hierarchical_mutex"

definition hierarchical_mutex_new :: "ulong \<Rightarrow> hierarchical_mutex" where
  "hierarchical_mutex_new v =
     \<lparr>internal_mutex = False, hierarchy_value = v, previous_hierarchy_value = 0\<rparr>"

definition initial_state :: program_state where
  "initial_state =
     \<lparr>this_thread_hierarchy_value = ULONG_MAX,
      mutexes = (\<lambda>n. case n of
          High_level_mutex \<Rightarrow> hierarchical_mutex_new 10000
        | Low_level_mutex \<Rightarrow> hierarchical_mutex_new 5000
        | Other_mutex \<Rightarrow> hierarchical_mutex_new 100)\<rparr>"

definition check_for_hierarchy_violation :: "mutex_name \<Rightarrow> program_state \<Rightarrow> failure + unit" where
  "check_for_hierarchy_violation m s =
     (if this_thread_hierarchy_value s \<le> hierarchy_value (mutexes s m)
      then Inl (Logic_error ''mutex hierarchy violated'')
      else Inr ())"

definition update_hierarchy_value :: "mutex_name \<Rightarrow> program_state \<Rightarrow> program_state" where
  "update_hierarchy_value m s =
     (let s1 = s\<lparr>mutexes := (mutexes s)
                 (m := (mutexes s m)\<lparr>previous_hierarchy_value := this_thread_hierarchy_value s\<rparr>)\<rparr>
      in s1\<lparr>this_thread_hierarchy_value := hierarchy_value (mutexes s1 m)\<rparr>)"

text \<open>
  \<^verbatim>\<open>internal_mutex.lock()\<close> by the thread that already owns the mutex is undefined
  (in practice the thread waits for itself); no other thread exists in this model.
\<close>

definition lock :: "mutex_name \<Rightarrow> program_state \<Rightarrow> (failure + unit) \<times> program_state" where
  "lock m s =
     (case check_for_hierarchy_violation m s of
        Inl e \<Rightarrow> (Inl e, s)
      | Inr _ \<Rightarrow>
          if internal_mutex (mutexes s m) then (Inl Undefined_behaviour, s)
          else (Inr (), update_hierarchy_value m
                  (s\<lparr>mutexes := (mutexes s)(m := (mutexes s m)\<lparr>internal_mutex := True\<rparr>)\<rparr>)))"

definition unlock :: "mutex_name \<Rightarrow> program_state \<Rightarrow> (failure + unit) \<times> program_state" where
  "unlock m s =
     (let s1 = s\<lparr>this_thread_hierarchy_value := previous_hierarchy_value (mutexes s m)\<rparr>
      in if internal_mutex (mutexes s1 m)
         then (Inr (), s1\<lparr>mutexes := (mutexes s1)(m := (mutexes s1 m)\<lparr>internal_mutex := False\<rparr>)\<rparr>)
         else (Inl Undefined_behaviour, s1))"

text \<open>
  \<open>try_lock\<close>: \<^verbatim>\<open>internal_mutex.try_lock()\<close> fails on a mutex that is held.
\<close>

definition try_lock :: "mutex_name \<Rightarrow> program_state \<Rightarrow> (failure + bool) \<times> program_state" where
  "try_lock m s =
     (case check_for_hierarchy_violation m s of
        Inl e \<Rightarrow> (Inl e, s)
      | Inr _ \<Rightarrow>
          if internal_mutex (mutexes s m) then (Inr False, s)
          else (Inr True, update_hierarchy_value m
                  (s\<lparr>mutexes := (mutexes s)(m := (mutexes s m)\<lparr>internal_mutex := True\<rparr>)\<rparr>)))"

text \<open>
  \<^verbatim>\<open>std::lock_guard<hierarchical_mutex> lk(m); body\<close>: the constructor locks, and an
  exception it throws leaves the scope with nothing to release; otherwise the destructor
  unlocks when the scope is left, by return or by an exception of the body.
\<close>

definition lock_guard ::
  "mutex_name \<Rightarrow> (program_state \<Rightarrow> (failure + 'r) \<times> program_state) \<Rightarrow>
   program_state \<Rightarrow> (failure + 'r) \<times> program_state" where
  "lock_guard m body s =
     (case lock m s of
        (Inl e, s1) \<Rightarrow> (Inl e, s1)
      | (Inr _, s1) \<Rightarrow>
          (case body s1 of
             (r, s2) \<Rightarrow>
               (case unlock m s2 of
                  (Inl e, s3) \<Rightarrow> (Inl e, s3)
                | (Inr _, s3) \<Rightarrow> (r, s3))))"

text \<open>
  \<^verbatim>\<open>do_low_level_stuff\<close>, \<^verbatim>\<open>high_level_stuff\<close> and \<^verbatim>\<open>do_other_stuff\<close> are declared
  in the source and defined nowhere. They are taken as calls that return normally and
  touch no hierarchical mutex; \<open>low_result\<close> is the value \<^verbatim>\<open>do_low_level_stuff()\<close>
  returns.
\<close>

definition low_level_func :: "int \<Rightarrow> program_state \<Rightarrow> (failure + int) \<times> program_state" where
  "low_level_func low_result = lock_guard Low_level_mutex (\<lambda>s. (Inr low_result, s))"

definition high_level_func :: "int \<Rightarrow> program_state \<Rightarrow> (failure + unit) \<times> program_state" where
  "high_level_func low_result =
     lock_guard High_level_mutex
       (\<lambda>s. case low_level_func low_result s of
               (Inl e, s1) \<Rightarrow> (Inl e, s1)
             | (Inr some_param, s1) \<Rightarrow> (Inr (), s1))"

definition thread_a :: "int \<Rightarrow> program_state \<Rightarrow> (failure + unit) \<times> program_state" where
  "thread_a low_result = high_level_func low_result"

definition other_stuff :: "int \<Rightarrow> program_state \<Rightarrow> (failure + unit) \<times> program_state" where
  "other_stuff low_result s =
     (case high_level_func low_result s of
        (Inl e, s1) \<Rightarrow> (Inl e, s1)
      | (Inr _, s1) \<Rightarrow> (Inr (), s1))"

definition thread_b :: "int \<Rightarrow> program_state \<Rightarrow> (failure + unit) \<times> program_state" where
  "thread_b low_result = lock_guard Other_mutex (other_stuff low_result)"



section \<open>chapter-6.cpp: the hand-over-hand list\<close>

text \<open>
  \<^verbatim>\<open>struct node { std::mutex m; std::shared_ptr<T> data; std::unique_ptr<node> next; }\<close>.
  A \<^verbatim>\<open>unique_ptr\<close> owns what it points to, so a chain of nodes is a value:
  \<open>node_next\<close>, the member \<open>next\<close>, is \<open>None\<close> for a null pointer and the owned node
  otherwise. The shared pointer \<open>data\<close> is an option. The per-node mutexes are taken and released hand over hand
  inside each member function and are all free between calls; a sequential run never
  waits on them, so they carry no state.
\<close>

datatype 'a node = Node (data: "'a option") (node_next: "'a node option")

text \<open>The list is its sentinel \<^verbatim>\<open>node head\<close>, built by the default constructor.\<close>

record 'a threadsafe_list =
  list_head :: "'a node"

definition new_list :: "'a threadsafe_list" where
  "new_list = \<lparr>list_head = Node None None\<rparr>"

definition push_front :: "'a \<Rightarrow> 'a threadsafe_list \<Rightarrow> 'a threadsafe_list" where
  "push_front v l =
     (let new_node = Node (Some v) None;
          new_node1 = Node (data new_node) (node_next (list_head l))
      in l\<lparr>list_head := Node (data (list_head l)) (Some new_node1)\<rparr>)"

text \<open>
  The loops walk a raw pointer \<open>current\<close> down the chain; the recursion is on the node
  \<open>current\<close> points to. The caller's function object \<open>f\<close> acts on its own state \<open>'s\<close>.
  \<^verbatim>\<open>*next->data\<close> dereferences the shared pointer, which is undefined when it is null.
\<close>

fun for_each_loop :: "('a \<Rightarrow> 's \<Rightarrow> 's) \<Rightarrow> 'a node \<Rightarrow> 's \<Rightarrow> failure + 's" where
  "for_each_loop f (Node d None) s = Inr s"
| "for_each_loop f (Node d (Some nx)) s =
     (case data nx of
        None \<Rightarrow> Inl Undefined_behaviour
      | Some v \<Rightarrow> for_each_loop f nx (f v s))"

definition for_each :: "('a \<Rightarrow> 's \<Rightarrow> 's) \<Rightarrow> 'a threadsafe_list \<Rightarrow> 's \<Rightarrow> failure + 's" where
  "for_each f l s = for_each_loop f (list_head l) s"

text \<open>
  \<open>remove_if\<close>: when the predicate holds of the next node, \<open>current->next\<close> takes over
  that node's \<open>next\<close> and \<open>current\<close> stays; otherwise \<open>current\<close> advances. The result is
  the node \<open>current\<close> pointed to, with its chain as the loop leaves it.
\<close>

fun remove_if_loop :: "('a \<Rightarrow> bool) \<Rightarrow> 'a node \<Rightarrow> failure + 'a node" where
  "remove_if_loop p (Node d None) = Inr (Node d None)"
| "remove_if_loop p (Node d (Some (Node e nn))) =
     (case e of
        None \<Rightarrow> Inl Undefined_behaviour
      | Some v \<Rightarrow>
          if p v then remove_if_loop p (Node d nn)
          else (case remove_if_loop p (Node e nn) of
                  Inl err \<Rightarrow> Inl err
                | Inr nx \<Rightarrow> Inr (Node d (Some nx))))"

definition remove_if :: "('a \<Rightarrow> bool) \<Rightarrow> 'a threadsafe_list \<Rightarrow> failure + 'a threadsafe_list" where
  "remove_if p l =
     (case remove_if_loop p (list_head l) of
        Inl err \<Rightarrow> Inl err
      | Inr h \<Rightarrow> Inr (l\<lparr>list_head := h\<rparr>))"


section \<open>chapter-6.cpp: the fold over the list and its main\<close>

text \<open>
  \<^verbatim>\<open>int\<close> is 32 bits wide and read as two's complement by \<open>sint\<close>. Signed overflow is
  undefined in C++; the words wrap, and no sum below comes near the bound.
\<close>

type_synonym c_int = "32 word"

definition reducer :: "c_int \<Rightarrow> c_int \<Rightarrow> c_int" where
  "reducer a b = a + b"

text \<open>\<^verbatim>\<open>std::cout << i\<close> for an \<^verbatim>\<open>int\<close>: decimal digits, with a minus sign when negative.\<close>

fun show_nat :: "nat \<Rightarrow> string" where
  "show_nat n =
     (if n < 10 then [''0123456789'' ! n]
      else show_nat (n div 10) @ [''0123456789'' ! (n mod 10)])"

declare show_nat.simps [simp del]

definition show_int :: "c_int \<Rightarrow> string" where
  "show_int i =
     (if sint i < 0 then CHR ''-'' # show_nat (nat (- sint i)) else show_nat (nat (sint i)))"

text \<open>The loop of \<open>getHead\<close>: every element of the vector, in order, pushed at the front.\<close>

definition push_front_all :: "'a list \<Rightarrow> 'a threadsafe_list \<Rightarrow> 'a threadsafe_list" where
  "push_front_all a l = foldl (\<lambda>l i. push_front i l) l a"

text \<open>
  \<open>getHead\<close> allocates a list that is never deleted and returns the address of its
  sentinel, which is never null. The caller only reads through the pointer, so the
  model hands over the sentinel itself.
\<close>

definition getHead :: "c_int list \<Rightarrow> c_int node option" where
  "getHead a = Some (list_head (push_front_all a new_list))"

text \<open>
  \<open>reduce_list\<close> writes each running total and \<^verbatim>\<open>std::endl\<close> to standard output; the
  text written so far goes in and comes back extended.
\<close>

fun reduce_loop ::
  "(c_int \<Rightarrow> c_int \<Rightarrow> c_int) \<Rightarrow> c_int node \<Rightarrow> c_int \<Rightarrow> string \<Rightarrow> (failure + c_int) \<times> string" where
  "reduce_loop f (Node d None) cur_sum out = (Inr cur_sum, out)"
| "reduce_loop f (Node d (Some nx)) cur_sum out =
     (case data nx of
        None \<Rightarrow> (Inl Undefined_behaviour, out)
      | Some v \<Rightarrow>
          (let cur_sum1 = (if d = None then f v 0 else f v cur_sum)
           in reduce_loop f nx cur_sum1 (out @ show_int cur_sum1 @ ''\<newline>'')))"

definition reduce_list ::
  "c_int node option \<Rightarrow> (c_int \<Rightarrow> c_int \<Rightarrow> c_int) \<Rightarrow> string \<Rightarrow> (failure + c_int) \<times> string" where
  "reduce_list head f out =
     (case head of
        None \<Rightarrow> (Inl Undefined_behaviour, out)
      | Some h \<Rightarrow> reduce_loop f h 0 out)"

text \<open>\<open>main\<close>: the exit status and everything written to standard output.\<close>

definition main :: "(failure + c_int) \<times> string" where
  "main =
     (let a = [7, 9, 10];
          head = getHead a;
          out1 = (if head \<noteq> None then ''HEAD IS AVAILABLE\<newline>'' else '''')
      in case reduce_list head reducer out1 of
           (Inl e, out2) \<Rightarrow> (Inl e, out2)
         | (Inr cur_sum, out2) \<Rightarrow>
             (let out3 = foldl (\<lambda>out i. out @ show_int i @ '' '') out2 a
              in (Inr 0, out3 @ ''SUM: '' @ show_int cur_sum @ ''\<newline>'')))"


section \<open>chapter-6.cpp: the queue under one mutex, holding shared pointers\<close>

text \<open>
  \<^verbatim>\<open>std::queue<std::shared_ptr<T> > data_queue\<close> is a list of cells, the front first.
  The mutex is taken and released inside each member function, and \<open>notify_one\<close> has
  no thread to wake. \<^verbatim>\<open>data_cond.wait(lk, pred)\<close> returns at once when \<open>pred\<close> holds and
  otherwise waits for another thread, of which the model has none.
\<close>

record 'a coarse_queue =
  data_queue :: "'a option list"

definition new_coarse_queue :: "'a coarse_queue" where
  "new_coarse_queue = \<lparr>data_queue = []\<rparr>"

definition push_coarse :: "'a \<Rightarrow> 'a coarse_queue \<Rightarrow> 'a coarse_queue" where
  "push_coarse new_value q = q\<lparr>data_queue := data_queue q @ [Some new_value]\<rparr>"

text \<open>\<^verbatim>\<open>void wait_and_pop(T& value)\<close>: the caller's variable goes in and comes back.\<close>

definition wait_and_pop_coarse_ref ::
  "'a \<Rightarrow> 'a coarse_queue \<Rightarrow> (failure + unit) \<times> 'a \<times> 'a coarse_queue" where
  "wait_and_pop_coarse_ref val q =
     (case data_queue q of
        [] \<Rightarrow> (Inl Blocks_forever, val, q)
      | front # rest \<Rightarrow>
          (case front of
             None \<Rightarrow> (Inl Undefined_behaviour, val, q)
           | Some v \<Rightarrow> (Inr (), v, q\<lparr>data_queue := rest\<rparr>)))"

text \<open>\<^verbatim>\<open>bool try_pop(T& value)\<close>.\<close>

definition try_pop_coarse_ref ::
  "'a \<Rightarrow> 'a coarse_queue \<Rightarrow> (failure + bool) \<times> 'a \<times> 'a coarse_queue" where
  "try_pop_coarse_ref val q =
     (case data_queue q of
        [] \<Rightarrow> (Inr False, val, q)
      | front # rest \<Rightarrow>
          (case front of
             None \<Rightarrow> (Inl Undefined_behaviour, val, q)
           | Some v \<Rightarrow> (Inr True, v, q\<lparr>data_queue := rest\<rparr>)))"

text \<open>\<^verbatim>\<open>std::shared_ptr<T> wait_and_pop()\<close>.\<close>

definition wait_and_pop_coarse ::
  "'a coarse_queue \<Rightarrow> (failure + 'a option) \<times> 'a coarse_queue" where
  "wait_and_pop_coarse q =
     (case data_queue q of
        [] \<Rightarrow> (Inl Blocks_forever, q)
      | front # rest \<Rightarrow> (Inr front, q\<lparr>data_queue := rest\<rparr>))"

text \<open>\<^verbatim>\<open>std::shared_ptr<T> try_pop()\<close>: the null pointer when the queue is empty.\<close>

definition try_pop_coarse :: "'a coarse_queue \<Rightarrow> 'a option \<times> 'a coarse_queue" where
  "try_pop_coarse q =
     (case data_queue q of
        [] \<Rightarrow> (None, q)
      | front # rest \<Rightarrow> (front, q\<lparr>data_queue := rest\<rparr>))"

definition empty_coarse :: "'a coarse_queue \<Rightarrow> bool" where
  "empty_coarse q = (data_queue q = [])"


section \<open>chapter-6.cpp: the queue with a dummy node and two mutexes\<close>

text \<open>
  \<open>tail\<close> is a raw pointer into the chain that \<open>head\<close> owns, so the nodes live in a store:
  a map from addresses to nodes, in which \<open>push\<close> and \<open>try_pop\<close> write through \<open>tail\<close>
  and \<open>head\<close>. A pointer is an optional address, null being \<open>None\<close>. \<^verbatim>\<open>new node\<close> takes
  the address \<open>fresh\<close>, which has never been used, and a node is deleted by removing its
  address from the store. The two mutexes are taken and released inside each member
  function.
\<close>

type_synonym addr = nat

record 'a qnode =
  qdata :: "'a option"
  qnext :: "addr option"

record 'a fine_queue =
  heap :: "addr \<Rightarrow> 'a qnode option"
  head :: "addr option"
  tail :: "addr option"
  fresh :: addr

text \<open>\<^verbatim>\<open>new node\<close>: both members of the new node are null.\<close>

definition new_node :: "'a fine_queue \<Rightarrow> addr \<times> 'a fine_queue" where
  "new_node q =
     (fresh q,
      q\<lparr>heap := (heap q)(fresh q \<mapsto> \<lparr>qdata = None, qnext = None\<rparr>), fresh := Suc (fresh q)\<rparr>)"

text \<open>The constructor: \<^verbatim>\<open>head(new node), tail(head.get())\<close>.\<close>

definition new_fine_queue :: "'a fine_queue" where
  "new_fine_queue =
     (case new_node \<lparr>heap = Map.empty, head = None, tail = None, fresh = 0\<rparr> of
        (a, q) \<Rightarrow> q\<lparr>head := Some a, tail := Some a\<rparr>)"

definition get_tail :: "'a fine_queue \<Rightarrow> addr option" where
  "get_tail q = tail q"

text \<open>
  \<open>pop_head\<close> hands the old head node over to its caller. \<^verbatim>\<open>std::move(old_head->next)\<close>
  leaves the \<open>next\<close> of the old head null. Reading \<open>old_head->next\<close> through a null or a
  dangling pointer is undefined.
\<close>

definition pop_head :: "'a fine_queue \<Rightarrow> (failure + addr option) \<times> 'a fine_queue" where
  "pop_head q =
     (if head q = get_tail q then (Inr None, q)
      else
        (case head q of
           None \<Rightarrow> (Inl Undefined_behaviour, q)
         | Some old_head \<Rightarrow>
             (case heap q old_head of
                None \<Rightarrow> (Inl Undefined_behaviour, q)
              | Some n \<Rightarrow>
                  (Inr (Some old_head),
                   q\<lparr>head := qnext n, heap := (heap q)(old_head \<mapsto> n\<lparr>qnext := None\<rparr>)\<rparr>))))"

text \<open>
  \<open>try_pop\<close>: when the scope is left the \<^verbatim>\<open>unique_ptr\<close> \<open>old_head\<close> deletes its node,
  whose own \<open>next\<close> is null by then, so nothing else is deleted with it.
\<close>

definition try_pop_fine :: "'a fine_queue \<Rightarrow> (failure + 'a option) \<times> 'a fine_queue" where
  "try_pop_fine q =
     (case pop_head q of
        (Inl e, q1) \<Rightarrow> (Inl e, q1)
      | (Inr None, q1) \<Rightarrow> (Inr None, q1)
      | (Inr (Some old_head), q1) \<Rightarrow>
          (case heap q1 old_head of
             None \<Rightarrow> (Inl Undefined_behaviour, q1)
           | Some n \<Rightarrow> (Inr (qdata n), q1\<lparr>heap := (heap q1)(old_head := None)\<rparr>)))"

text \<open>
  \<open>push\<close>: the new dummy node is allocated first; then the old dummy, reached through
  \<open>tail\<close>, receives the data and the link to the new one, and \<open>tail\<close> moves on.
\<close>

definition push_fine :: "'a \<Rightarrow> 'a fine_queue \<Rightarrow> (failure + unit) \<times> 'a fine_queue" where
  "push_fine new_value q =
     (let new_data = Some new_value in
      case new_node q of
        (p, q1) \<Rightarrow>
          (case tail q1 of
             None \<Rightarrow> (Inl Undefined_behaviour, q1)
           | Some t \<Rightarrow>
               (case heap q1 t of
                  None \<Rightarrow> (Inl Undefined_behaviour, q1)
                | Some n \<Rightarrow>
                    (Inr (),
                     q1\<lparr>heap := (heap q1)(t \<mapsto> n\<lparr>qdata := new_data, qnext := Some p\<rparr>),
                        tail := Some p\<rparr>))))"


section \<open>Sequential runs of the two queues\<close>

text \<open>
  A caller that applies operations one after the other, and what it observes of each:
  nothing of a push, the returned pointer of a \<open>try_pop\<close>.
\<close>

datatype 'a queue_op = Push 'a | Try_pop

datatype 'a observed = Pushed | Popped "'a option" | Failed failure

definition step_coarse :: "'a queue_op \<Rightarrow> 'a coarse_queue \<Rightarrow> 'a observed \<times> 'a coarse_queue" where
  "step_coarse op q =
     (case op of
        Push v \<Rightarrow> (Pushed, push_coarse v q)
      | Try_pop \<Rightarrow> (case try_pop_coarse q of (res, q1) \<Rightarrow> (Popped res, q1)))"

fun run_coarse :: "'a queue_op list \<Rightarrow> 'a coarse_queue \<Rightarrow> 'a observed list \<times> 'a coarse_queue" where
  "run_coarse [] q = ([], q)"
| "run_coarse (op # ops) q =
     (case step_coarse op q of
        (ob, q1) \<Rightarrow> (case run_coarse ops q1 of (obs, q2) \<Rightarrow> (ob # obs, q2)))"

definition step_fine :: "'a queue_op \<Rightarrow> 'a fine_queue \<Rightarrow> 'a observed \<times> 'a fine_queue" where
  "step_fine op q =
     (case op of
        Push v \<Rightarrow>
          (case push_fine v q of
             (Inl e, q1) \<Rightarrow> (Failed e, q1)
           | (Inr _, q1) \<Rightarrow> (Pushed, q1))
      | Try_pop \<Rightarrow>
          (case try_pop_fine q of
             (Inl e, q1) \<Rightarrow> (Failed e, q1)
           | (Inr res, q1) \<Rightarrow> (Popped res, q1)))"

fun run_fine :: "'a queue_op list \<Rightarrow> 'a fine_queue \<Rightarrow> 'a observed list \<times> 'a fine_queue" where
  "run_fine [] q = ([], q)"
| "run_fine (op # ops) q =
     (case step_fine op q of
        (ob, q1) \<Rightarrow> (case run_fine ops q1 of (obs, q2) \<Rightarrow> (ob # obs, q2)))"

text \<open>
  The four ways of removing an item from the queue under one mutex, and the item each
  hands to its caller, if it hands over any. \<open>val\<close> is what the caller's variable held
  before a call that takes it by reference.
\<close>

datatype removal = By_wait_and_pop_ref | By_try_pop_ref | By_wait_and_pop | By_try_pop

definition remove_one :: "'a \<Rightarrow> removal \<Rightarrow> 'a coarse_queue \<Rightarrow> 'a option \<times> 'a coarse_queue" where
  "remove_one val r q =
     (case r of
        By_wait_and_pop_ref \<Rightarrow>
          (case wait_and_pop_coarse_ref val q of
             (Inl e, v, q1) \<Rightarrow> (None, q1)
           | (Inr _, v, q1) \<Rightarrow> (Some v, q1))
      | By_try_pop_ref \<Rightarrow>
          (case try_pop_coarse_ref val q of
             (Inl e, v, q1) \<Rightarrow> (None, q1)
           | (Inr got, v, q1) \<Rightarrow> (if got then Some v else None, q1))
      | By_wait_and_pop \<Rightarrow>
          (case wait_and_pop_coarse q of
             (Inl e, q1) \<Rightarrow> (None, q1)
           | (Inr res, q1) \<Rightarrow> (res, q1))
      | By_try_pop \<Rightarrow> try_pop_coarse q)"

fun remove_each :: "'a \<Rightarrow> removal list \<Rightarrow> 'a coarse_queue \<Rightarrow> 'a option list \<times> 'a coarse_queue" where
  "remove_each val [] q = ([], q)"
| "remove_each val (r # rs) q =
     (case remove_one val r q of
        (item, q1) \<Rightarrow> (case remove_each val rs q1 of (items, q2) \<Rightarrow> (item # items, q2)))"

definition push_each :: "'a list \<Rightarrow> 'a coarse_queue \<Rightarrow> 'a coarse_queue" where
  "push_each xs q = foldl (\<lambda>q x. push_coarse x q) q xs"


section \<open>The Makefile\<close>

text \<open>
  The state is the set of regular files in the directory where make runs, by path.
  \<^verbatim>\<open>$(CC) $(CFLAGS) -o out src\<close> is taken where the compilation succeeds: it writes the
  file \<open>out\<close>. \<^verbatim>\<open>rm -f path\<close> removes the file at \<open>path\<close> if there is one and nothing
  else.
\<close>

type_synonym files = "string set"

definition gxx :: "string \<Rightarrow> files \<Rightarrow> files" where
  "gxx out fs = insert out fs"

definition rm_f :: "string \<Rightarrow> files \<Rightarrow> files" where
  "rm_f path fs = fs - {path}"

text \<open>
  A rule without prerequisites: make runs the recipe unless a file named like the target
  exists. No target of the Makefile is declared phony.
\<close>

definition rule :: "string \<Rightarrow> (files \<Rightarrow> files) \<Rightarrow> files \<Rightarrow> files" where
  "rule target recipe fs = (if target \<in> fs then fs else recipe fs)"

definition make_hello :: "files \<Rightarrow> files" where
  "make_hello = rule ''hello'' (gxx ''hello'')"

definition make_thread_waiting :: "files \<Rightarrow> files" where
  "make_thread_waiting = rule ''thread-waiting'' (gxx ''thread-wait'')"

definition make_run_background :: "files \<Rightarrow> files" where
  "make_run_background = rule ''run-background'' (gxx ''run-background'')"

text \<open>
  \<open>all\<close>, the default goal, has no recipe: its prerequisites are brought up to date in
  the order written.
\<close>

definition make_all :: "files \<Rightarrow> files" where
  "make_all fs = make_run_background (make_thread_waiting (make_hello fs))"

definition make_clean :: "files \<Rightarrow> files" where
  "make_clean = rule ''clean'' (rm_f ''build/bin'')"


section \<open>Abstractions used in the proofs\<close>

text \<open>The chain that holds the given values, front first; the inverse of a traversal.\<close>

fun chain_of :: "'a list \<Rightarrow> 'a node option" where
  "chain_of [] = None"
| "chain_of (x # xs) = Some (Node (Some x) (chain_of xs))"


text \<open>
  \<open>qpath h p as t\<close>: following the \<open>next\<close> links in the store \<open>h\<close> from the pointer \<open>p\<close>
  passes through the nodes at the addresses \<open>as\<close>, in that order, and arrives at the
  pointer \<open>t\<close>.
\<close>

fun qpath :: "(addr \<Rightarrow> 'a qnode option) \<Rightarrow> addr option \<Rightarrow> addr list \<Rightarrow> addr option \<Rightarrow> bool" where
  "qpath h p [] t = (p = t)"
| "qpath h p (a # as) t =
     (p = Some a \<and> (case h a of None \<Rightarrow> False | Some n \<Rightarrow> qpath h (qnext n) as t))"

text \<open>The data slot of the node at an address; null also where the store has no node.\<close>

definition cell_at :: "(addr \<Rightarrow> 'a qnode option) \<Rightarrow> addr \<Rightarrow> 'a option" where
  "cell_at h a = (case h a of None \<Rightarrow> None | Some n \<Rightarrow> qdata n)"

text \<open>
  The representation invariant of the queue with a dummy node, with its witnesses: the
  dummy at \<open>t\<close>, the nodes \<open>as\<close> before it, and the values \<open>vs\<close> they hold.
\<close>

definition fq_inv :: "'a fine_queue \<Rightarrow> addr \<Rightarrow> addr list \<Rightarrow> 'a list \<Rightarrow> bool" where
  "fq_inv q t as vs =
     (tail q = Some t
      \<and> heap q t = Some \<lparr>qdata = None, qnext = None\<rparr>
      \<and> qpath (heap q) (head q) as (Some t)
      \<and> distinct as \<and> t \<notin> set as
      \<and> t < fresh q \<and> list_all (\<lambda>a. a < fresh q) as
      \<and> map (cell_at (heap q)) as = map Some vs)"

section \<open>Properties of the thread-safe stack\<close>

text \<open>
  C3. On a newly constructed stack both overloads of pop throw \<open>Empty_stack\<close>, which is
  not the logic error; the stack is left as it was (and the caller's variable untouched),
  so a second pop throws the same; after one push of \<open>v\<close>, either overload yields \<open>v\<close>
  and leaves the stack empty.
\<close>

theorem pop_empty_then_push_pop:
  "pop_stack (new_stack :: 'a threadsafe_stack) = (Inl Empty_stack, new_stack)
   \<and> pop_stack_ref x (new_stack :: 'a threadsafe_stack) = (Inl Empty_stack, x, new_stack)
   \<and> Empty_stack \<noteq> Logic_error msg \<and> Empty_stack \<noteq> Undefined_behaviour
   \<and> empty_stack (snd (pop_stack (new_stack :: 'a threadsafe_stack)))
   \<and> empty_stack (snd (snd (pop_stack_ref x (new_stack :: 'a threadsafe_stack))))
   \<and> pop_stack (snd (pop_stack (new_stack :: 'a threadsafe_stack))) = (Inl Empty_stack, new_stack)
   \<and> pop_stack_ref x (snd (snd (pop_stack_ref x (new_stack :: 'a threadsafe_stack))))
       = (Inl Empty_stack, x, new_stack)
   \<and> pop_stack (push_stack v new_stack) = (Inr (Some v), new_stack)
   \<and> pop_stack_ref x (push_stack v new_stack) = (Inr (), v, new_stack)
   \<and> empty_stack (snd (pop_stack (push_stack v new_stack)))
   \<and> empty_stack (snd (snd (pop_stack_ref x (push_stack v new_stack))))"
  by (simp add: pop_stack_def pop_stack_ref_def new_stack_def push_stack_def empty_stack_def)


section \<open>Properties of the hierarchical mutex\<close>

lemma ULONG_MAX_not_le [simp]:
  "\<not> ULONG_MAX \<le> (10000 :: ulong)" "\<not> ULONG_MAX \<le> (5000 :: ulong)" "\<not> ULONG_MAX \<le> (100 :: ulong)"
  by (simp_all add: ULONG_MAX_def)

text \<open>
  C4. From the initial state (rank \<open>ULONG_MAX\<close>, every mutex free), \<open>thread_b\<close> ends in
  the logic error: locking the rank-100 mutex succeeds and the attempt that follows to
  lock the rank-10000 mutex is the one refused; \<open>thread_a\<close> returns normally.
\<close>

theorem thread_b_violates_thread_a_succeeds:
  "fst (thread_b r initial_state) = Inl (Logic_error ''mutex hierarchy violated'')
   \<and> fst (lock Other_mutex initial_state) = Inr ()
   \<and> fst (lock High_level_mutex (snd (lock Other_mutex initial_state)))
       = Inl (Logic_error ''mutex hierarchy violated'')
   \<and> fst (thread_a r initial_state) = Inr ()"
  by (simp add: thread_b_def thread_a_def other_stuff_def high_level_func_def low_level_func_def
      lock_guard_def lock_def unlock_def check_for_hierarchy_violation_def
      update_hierarchy_value_def initial_state_def hierarchical_mutex_new_def Let_def)

text \<open>
  C10. When \<open>lock\<close> on a hierarchical mutex succeeds and \<open>unlock\<close> on the same mutex
  follows directly, the unlock succeeds, the thread's rank is again what it was before
  the lock, and the same lock succeeds once more.
\<close>

theorem lock_unlock_restores_rank:
  assumes "lock m s = (Inr (), s1)"
  shows "fst (unlock m s1) = Inr ()
    \<and> this_thread_hierarchy_value (snd (unlock m s1)) = this_thread_hierarchy_value s
    \<and> fst (lock m (snd (unlock m s1))) = Inr ()"
  using assms
  by (auto simp: lock_def unlock_def check_for_hierarchy_violation_def
      update_hierarchy_value_def Let_def split: if_splits)

theorem lock_unlock_restores_rank_witness:
  "lock High_level_mutex initial_state = (Inr (), snd (lock High_level_mutex initial_state))
   \<and> fst (unlock High_level_mutex (snd (lock High_level_mutex initial_state))) = Inr ()
   \<and> this_thread_hierarchy_value
        (snd (unlock High_level_mutex (snd (lock High_level_mutex initial_state)))) = ULONG_MAX
   \<and> fst (lock High_level_mutex
        (snd (unlock High_level_mutex (snd (lock High_level_mutex initial_state))))) = Inr ()"
proof -
  have h: "lock High_level_mutex initial_state = (Inr (), snd (lock High_level_mutex initial_state))"
    by (simp add: lock_def check_for_hierarchy_violation_def initial_state_def
        hierarchical_mutex_new_def)
  show ?thesis
    using h lock_unlock_restores_rank [OF h] by (simp add: initial_state_def)
qed

section \<open>Properties of the hand-over-hand list\<close>

lemma push_front_all_chain:
  "push_front_all xs \<lparr>list_head = Node d (chain_of ys)\<rparr>
     = \<lparr>list_head = Node d (chain_of (rev xs @ ys))\<rparr>"
proof (induction xs arbitrary: ys)
  case Nil
  show ?case by (simp add: push_front_all_def)
next
  case (Cons x xs)
  have "push_front_all (x # xs) \<lparr>list_head = Node d (chain_of ys)\<rparr>
          = push_front_all xs \<lparr>list_head = Node d (chain_of (x # ys))\<rparr>"
    by (simp add: push_front_all_def push_front_def)
  with Cons.IH [of "x # ys"] show ?case by simp
qed

lemma push_front_all_new:
  "push_front_all xs new_list = \<lparr>list_head = Node None (chain_of (rev xs))\<rparr>"
  using push_front_all_chain [of xs None "[]"] by (simp add: new_list_def)

lemma for_each_loop_chain:
  "for_each_loop f (Node d (chain_of ys)) s = Inr (foldl (\<lambda>s v. f v s) s ys)"
  by (induction ys arbitrary: d s) simp_all

lemma foldl_snoc: "foldl (\<lambda>visited v. visited @ [v]) acc ys = acc @ ys"
  by (induction ys arbitrary: acc) simp_all

lemma remove_if_loop_chain:
  "remove_if_loop p (Node d (chain_of ys)) = Inr (Node d (chain_of (filter (\<lambda>x. \<not> p x) ys)))"
  by (induction ys arbitrary: d) simp_all

text \<open>
  C7. Pushing 7, 9, 10 at the front and traversing visits 10, 9, 7. For a list built by
  pushing any values \<open>xs\<close>: the traversal visits them last pushed first; \<open>remove_if\<close> with
  the predicate that always holds leaves the empty list, whose traversal visits nothing;
  \<open>remove_if\<close> with the predicate "equals \<open>v\<close>" leaves a list whose traversal is the
  earlier one without the occurrences of \<open>v\<close>, the rest in their order.
\<close>

theorem list_push_traverse_remove:
  "for_each (\<lambda>v visited. visited @ [v])
      (push_front 10 (push_front 9 (push_front 7 new_list))) [] = Inr [10, 9, 7 :: int]
   \<and> for_each (\<lambda>v visited. visited @ [v]) (push_front_all xs new_list) [] = Inr (rev xs)
   \<and> remove_if (\<lambda>x. True) (push_front_all xs new_list) = Inr new_list
   \<and> for_each f new_list s = Inr s
   \<and> (\<exists>l. remove_if (\<lambda>x. x = v) (push_front_all xs new_list) = Inr l
          \<and> for_each (\<lambda>v visited. visited @ [v]) l []
              = Inr (filter (\<lambda>x. x \<noteq> v) (rev xs)))"
proof -
  have a: "for_each (\<lambda>v visited. visited @ [v])
      (push_front 10 (push_front 9 (push_front 7 new_list))) [] = Inr [10, 9, 7 :: int]"
    by (simp add: for_each_def push_front_def new_list_def)
  have b: "for_each (\<lambda>v visited. visited @ [v]) (push_front_all xs new_list) [] = Inr (rev xs)"
    by (simp add: for_each_def push_front_all_new for_each_loop_chain foldl_snoc)
  have c: "remove_if (\<lambda>x. True) (push_front_all xs new_list) = Inr new_list"
    unfolding remove_if_def push_front_all_new by (simp add: remove_if_loop_chain new_list_def)
  have d: "for_each f new_list s = Inr s"
    by (simp add: for_each_def new_list_def)
  have e: "remove_if (\<lambda>x. x = v) (push_front_all xs new_list)
             = Inr \<lparr>list_head = Node None (chain_of (filter (\<lambda>x. x \<noteq> v) (rev xs)))\<rparr>"
    by (simp add: remove_if_def push_front_all_new remove_if_loop_chain)
  have "for_each (\<lambda>v visited. visited @ [v])
          \<lparr>list_head = Node None (chain_of (filter (\<lambda>x. x \<noteq> v) (rev xs)))\<rparr> []
          = Inr (filter (\<lambda>x. x \<noteq> v) (rev xs))"
    by (simp add: for_each_def for_each_loop_chain foldl_snoc)
  with e have "\<exists>l. remove_if (\<lambda>x. x = v) (push_front_all xs new_list) = Inr l
          \<and> for_each (\<lambda>v visited. visited @ [v]) l []
              = Inr (filter (\<lambda>x. x \<noteq> v) (rev xs))"
    by blast
  with a b c d show ?thesis by blast
qed


section \<open>Properties of the fold and of main\<close>

lemma show_int_values:
  "show_int 7 = ''7''" "show_int 9 = ''9''" "show_int 10 = ''10''"
  "show_int 19 = ''19''" "show_int 26 = ''26''"
  by (simp_all add: show_int_def show_nat.simps)

lemma reduce_list_7_9_10:
  "reduce_list (getHead [7, 9, 10]) reducer out
     = (Inr 26, out @ ''10\<newline>19\<newline>26\<newline>'')"
  by (simp add: reduce_list_def getHead_def push_front_all_def push_front_def new_list_def
      reducer_def show_int_values)

text \<open>
  C1, as the code has it. \<open>main\<close> returns 0 and writes the line \<open>HEAD IS AVAILABLE\<close>, the
  running totals 10, 19 and 26 on a line each, and then, on one line, the input values
  \<open>7 9 10 \<close> followed by \<open>SUM: 26\<close>.
\<close>

theorem main_output:
  "main = (Inr 0, ''HEAD IS AVAILABLE\<newline>10\<newline>19\<newline>26\<newline>7 9 10 SUM: 26\<newline>'')"
  by (simp add: main_def Let_def getHead_def reduce_list_7_9_10 [unfolded getHead_def]
      show_int_values)

text \<open>
  C1, as it is stated, fails: the totals written by the fold are not 9, 16, 26, and the
  output of \<open>main\<close> is not those totals, then \<open>SUM: 26\<close>, then \<open>7 9 10 \<close>, with or
  without the first line before them.
\<close>

theorem main_output_counterexample:
  "snd (reduce_list (getHead [7, 9, 10]) reducer '''') \<noteq> ''9\<newline>16\<newline>26\<newline>''
   \<and> snd main \<noteq> ''9\<newline>16\<newline>26\<newline>SUM: 26\<newline>7 9 10 ''
   \<and> snd main \<noteq> ''HEAD IS AVAILABLE\<newline>9\<newline>16\<newline>26\<newline>SUM: 26\<newline>7 9 10 ''"
  by (simp add: main_def Let_def getHead_def reduce_list_7_9_10 [unfolded getHead_def]
      show_int_values)

text \<open>
  C2. On the list built from 7, 9, 10 pushed at the front in that order, \<open>reduce_list\<close>
  with \<open>reducer\<close> returns 26: at the sentinel, whose data is null, the total restarts
  from the seed 0, and 10, 9 and 7 are added in turn. \<open>main\<close> ends its output with that
  sum.
\<close>

theorem reduce_list_returns_26:
  "fst (reduce_list (getHead [7, 9, 10]) reducer out) = Inr 26
   \<and> data (the (getHead [7, 9, 10])) = None
   \<and> reducer 7 (reducer 9 (reducer 10 0)) = 26
   \<and> (\<exists>before. snd main = before @ ''SUM: '' @ show_int 26 @ ''\<newline>'')"
proof -
  have "snd main = ''HEAD IS AVAILABLE\<newline>10\<newline>19\<newline>26\<newline>7 9 10 '' @ ''SUM: '' @ show_int 26 @ ''\<newline>''"
    by (simp add: main_def Let_def getHead_def reduce_list_7_9_10 [unfolded getHead_def]
        show_int_values)
  then have m: "\<exists>before. snd main = before @ ''SUM: '' @ show_int 26 @ ''\<newline>''"
    by blast
  have r: "fst (reduce_list (getHead [7, 9, 10]) reducer out) = Inr 26"
    by (simp add: reduce_list_7_9_10)
  have s: "data (the (getHead [7, 9, 10])) = None"
    by (simp add: getHead_def push_front_all_def push_front_def new_list_def)
  have t: "reducer 7 (reducer 9 (reducer 10 0)) = 26"
    by (simp add: reducer_def)
  from r s t m show ?thesis by blast
qed

section \<open>Properties of the queue under one mutex\<close>

lemma push_each_data_queue:
  "data_queue (push_each xs q) = data_queue q @ map Some xs"
  by (induction xs arbitrary: q) (simp_all add: push_each_def push_coarse_def)

lemma remove_one_front:
  "remove_one val r \<lparr>data_queue = Some x # rest\<rparr> = (Some x, \<lparr>data_queue = rest\<rparr>)"
  by (cases r)
    (simp_all add: remove_one_def wait_and_pop_coarse_ref_def try_pop_coarse_ref_def
      wait_and_pop_coarse_def try_pop_coarse_def)

lemma remove_each_fronts:
  "length rs = length xs \<Longrightarrow>
   remove_each val rs \<lparr>data_queue = map Some xs @ rest\<rparr> = (map Some xs, \<lparr>data_queue = rest\<rparr>)"
proof (induction xs arbitrary: rs)
  case Nil
  then show ?case by simp
next
  case (Cons x xs)
  then obtain r rs' where rs: "rs = r # rs'" and len: "length rs' = length xs"
    by (cases rs) auto
  show ?case
    by (simp add: rs remove_one_front Cons.IH [OF len])
qed

text \<open>
  C6. After the values \<open>xs\<close> are pushed into a new queue, as many removals, each by any
  of \<open>wait_and_pop\<close> and \<open>try_pop\<close> in either overload, hand over exactly the values of
  \<open>xs\<close> in the order they were pushed, and leave the queue empty.
\<close>

theorem coarse_queue_fifo:
  assumes "length rs = length xs"
  shows "remove_each val rs (push_each xs new_coarse_queue) = (map Some xs, new_coarse_queue)"
proof -
  have "push_each xs new_coarse_queue = \<lparr>data_queue = map Some xs @ []\<rparr>"
    using push_each_data_queue [of xs new_coarse_queue] by (simp add: new_coarse_queue_def)
  then show ?thesis
    using remove_each_fronts [OF assms, of val "[]"] by (simp add: new_coarse_queue_def)
qed

theorem coarse_queue_fifo_witness:
  "length [By_wait_and_pop, By_try_pop_ref, By_try_pop, By_wait_and_pop_ref] = length [3, 1, 2, 1 :: int]
   \<and> remove_each 0 [By_wait_and_pop, By_try_pop_ref, By_try_pop, By_wait_and_pop_ref]
        (push_each [3, 1, 2, 1 :: int] new_coarse_queue)
      = ([Some 3, Some 1, Some 2, Some 1], new_coarse_queue)"
  using coarse_queue_fifo
    [of "[By_wait_and_pop, By_try_pop_ref, By_try_pop, By_wait_and_pop_ref]" "[3, 1, 2, 1 :: int]" 0]
  by simp


section \<open>Properties of the queue with a dummy node\<close>

lemma qpath_update_other:
  "u \<notin> set as \<Longrightarrow> qpath (h(u := x)) p as t = qpath h p as t"
  by (induction as arbitrary: p) (auto split: option.splits)

lemma qpath_snoc:
  "qpath h p as (Some t) \<Longrightarrow> h t = Some n \<Longrightarrow> qpath h p (as @ [t]) (qnext n)"
  by (induction as arbitrary: p) (auto split: option.splits)

lemma cell_at_update_other:
  "u \<notin> set as \<Longrightarrow> map (cell_at (h(u := x))) as = map (cell_at h) as"
  by (induction as) (auto simp: cell_at_def)

lemma fq_inv_new: "fq_inv new_fine_queue 0 [] []"
  by (simp add: fq_inv_def new_fine_queue_def new_node_def)

lemma fq_inv_push:
  assumes "fq_inv q t as vs"
  shows "\<exists>q1. push_fine v q = (Inr (), q1) \<and> fq_inv q1 (fresh q) (as @ [t]) (vs @ [v])"
proof -
  let ?p = "fresh q"
  let ?h1 = "(heap q)(?p \<mapsto> \<lparr>qdata = None, qnext = None\<rparr>)"
  let ?h2 = "?h1(t \<mapsto> \<lparr>qdata = Some v, qnext = Some ?p\<rparr>)"
  let ?q1 = "q\<lparr>heap := ?h2, fresh := Suc ?p, tail := Some ?p\<rparr>"
  from assms have tl: "tail q = Some t" and ht: "heap q t = Some \<lparr>qdata = None, qnext = None\<rparr>"
    and path: "qpath (heap q) (head q) as (Some t)" and dist: "distinct as" "t \<notin> set as"
    and bound: "t < ?p" "list_all (\<lambda>a. a < ?p) as"
    and cells: "map (cell_at (heap q)) as = map Some vs"
    by (simp_all add: fq_inv_def)
  from bound have pt: "?p \<noteq> t" and pas: "?p \<notin> set as"
    by (auto simp: list_all_iff)
  have run: "push_fine v q = (Inr (), ?q1)"
    using tl ht pt by (simp add: push_fine_def new_node_def)
  have path1: "qpath ?h1 (head q) as (Some t)"
    using path pas by (simp add: qpath_update_other)
  have "qpath ?h2 (head q) as (Some t)"
    using path1 dist by (simp add: qpath_update_other)
  moreover have "?h2 t = Some \<lparr>qdata = Some v, qnext = Some ?p\<rparr>"
    by simp
  ultimately have path2: "qpath ?h2 (head q) (as @ [t]) (Some ?p)"
    using qpath_snoc [of ?h2 "head q" as t "\<lparr>qdata = Some v, qnext = Some ?p\<rparr>"] by simp
  have cells2: "map (cell_at ?h2) as = map Some vs"
    using cells dist pas by (simp add: cell_at_update_other)
  have cellt: "cell_at ?h2 t = Some v"
    by (simp add: cell_at_def)
  have below: "list_all (\<lambda>a. a < Suc ?p) as"
    using bound by (auto simp: list_all_iff)
  have "fq_inv ?q1 ?p (as @ [t]) (vs @ [v])"
    unfolding fq_inv_def
    using path2 dist pas pt bound below cells2 cellt by simp
  with run show ?thesis by blast
qed

lemma fq_inv_head_is_tail:
  assumes "fq_inv q t as vs"
  shows "(head q = tail q) = (as = [])"
proof (cases as)
  case Nil
  with assms show ?thesis by (simp add: fq_inv_def)
next
  case (Cons a as')
  with assms have "head q = Some a" "tail q = Some t" "a \<noteq> t"
    by (auto simp: fq_inv_def)
  with Cons show ?thesis by simp
qed

lemma fq_inv_lengths: "fq_inv q t as vs \<Longrightarrow> length vs = length as"
  using map_eq_imp_length_eq [of "cell_at (heap q)" as Some vs] by (simp add: fq_inv_def)

lemma fq_inv_pop_empty:
  assumes "fq_inv q t [] vs"
  shows "try_pop_fine q = (Inr None, q)"
  using assms by (simp add: fq_inv_def try_pop_fine_def pop_head_def get_tail_def)

lemma fq_inv_pop:
  assumes "fq_inv q t (a # as) (v # vs)"
  shows "\<exists>q1. try_pop_fine q = (Inr (Some v), q1) \<and> fq_inv q1 t as vs"
proof -
  from assms have tl: "tail q = Some t" and ht: "heap q t = Some \<lparr>qdata = None, qnext = None\<rparr>"
    and hd: "head q = Some a" and dist: "distinct as" "a \<notin> set as" "t \<notin> set as" "a \<noteq> t"
    and bound: "t < fresh q" "list_all (\<lambda>a. a < fresh q) as"
    and cella: "cell_at (heap q) a = Some v"
    and cells: "map (cell_at (heap q)) as = map Some vs"
    by (auto simp: fq_inv_def)
  from assms obtain n where ha: "heap q a = Some n" and path: "qpath (heap q) (qnext n) as (Some t)"
    by (auto simp: fq_inv_def split: option.splits)
  from cella ha have dn: "qdata n = Some v"
    by (simp add: cell_at_def)
  let ?h1 = "(heap q)(a \<mapsto> n\<lparr>qnext := None\<rparr>)"
  let ?h2 = "?h1(a := None)"
  let ?q1 = "q\<lparr>head := qnext n, heap := ?h2\<rparr>"
  have run: "try_pop_fine q = (Inr (Some v), ?q1)"
    using hd tl ha dn dist by (simp add: try_pop_fine_def pop_head_def get_tail_def)
  have h2: "?h2 = (heap q)(a := None)"
    by simp
  have "fq_inv ?q1 t as vs"
    unfolding fq_inv_def h2
    using tl ht path dist bound cells
    by (simp add: qpath_update_other cell_at_update_other)
  with run show ?thesis by blast
qed

text \<open>One operation taken by both queues, from states that represent the same cells.\<close>

lemma step_simulation:
  assumes "fq_inv q t as vs" and "data_queue c = map Some vs"
  shows "fst (step_fine op q) = fst (step_coarse op c)
    \<and> (\<exists>t1 as1 vs1. fq_inv (snd (step_fine op q)) t1 as1 vs1
          \<and> data_queue (snd (step_coarse op c)) = map Some vs1)"
proof (cases op)
  case (Push v)
  from fq_inv_push [OF assms(1), of v] obtain q1
    where run: "push_fine v q = (Inr (), q1)" and inv: "fq_inv q1 (fresh q) (as @ [t]) (vs @ [v])"
    by blast
  have obs: "fst (step_fine op q) = fst (step_coarse op c)"
    using Push run by (simp add: step_fine_def step_coarse_def)
  have inv1: "fq_inv (snd (step_fine op q)) (fresh q) (as @ [t]) (vs @ [v])"
    using Push run inv by (simp add: step_fine_def)
  have "data_queue (snd (step_coarse op c)) = map Some (vs @ [v])"
    using Push assms(2) by (simp add: step_coarse_def push_coarse_def)
  with obs inv1 show ?thesis by blast
next
  case Try_pop
  show ?thesis
  proof (cases vs)
    case Nil
    with assms(1) fq_inv_lengths [OF assms(1)] have inv: "fq_inv q t [] []"
      by simp
    have obs: "fst (step_fine op q) = fst (step_coarse op c)"
      using Try_pop fq_inv_pop_empty [OF inv] assms(2) Nil
      by (simp add: step_fine_def step_coarse_def try_pop_coarse_def)
    have inv1: "fq_inv (snd (step_fine op q)) t [] []"
      using Try_pop fq_inv_pop_empty [OF inv] inv by (simp add: step_fine_def)
    have "data_queue (snd (step_coarse op c)) = map Some []"
      using Try_pop assms(2) Nil by (simp add: step_coarse_def try_pop_coarse_def)
    with obs inv1 show ?thesis by blast
  next
    case (Cons v vs')
    with fq_inv_lengths [OF assms(1)] obtain a as' where as: "as = a # as'"
      by (cases as) auto
    from assms(1) Cons as have "fq_inv q t (a # as') (v # vs')"
      by simp
    from fq_inv_pop [OF this] obtain q1
      where run: "try_pop_fine q = (Inr (Some v), q1)" and inv: "fq_inv q1 t as' vs'"
      by blast
    have obs: "fst (step_fine op q) = fst (step_coarse op c)"
      using Try_pop run assms(2) Cons
      by (simp add: step_fine_def step_coarse_def try_pop_coarse_def)
    have inv1: "fq_inv (snd (step_fine op q)) t as' vs'"
      using Try_pop run inv by (simp add: step_fine_def)
    have "data_queue (snd (step_coarse op c)) = map Some vs'"
      using Try_pop assms(2) Cons by (simp add: step_coarse_def try_pop_coarse_def)
    with obs inv1 show ?thesis by blast
  qed
qed

lemma run_simulation:
  assumes "fq_inv q t as vs" and "data_queue c = map Some vs"
  shows "fst (run_fine ops q) = fst (run_coarse ops c)
    \<and> (\<exists>t1 as1 vs1. fq_inv (snd (run_fine ops q)) t1 as1 vs1
          \<and> data_queue (snd (run_coarse ops c)) = map Some vs1)"
  using assms
proof (induction ops arbitrary: q c t as vs)
  case Nil
  then show ?case by auto
next
  case (Cons op ops)
  from step_simulation [OF Cons.prems, of op] obtain t1 as1 vs1
    where obs: "fst (step_fine op q) = fst (step_coarse op c)"
      and inv: "fq_inv (snd (step_fine op q)) t1 as1 vs1"
      and dq: "data_queue (snd (step_coarse op c)) = map Some vs1"
    by blast
  from Cons.IH [OF inv dq] obs show ?case
    by (simp add: split_beta)
qed

lemma run_fine_inv:
  "\<exists>t as vs. fq_inv (snd (run_fine ops new_fine_queue)) t as vs"
  using run_simulation [OF fq_inv_new, of new_coarse_queue ops]
  by (auto simp: new_coarse_queue_def)

text \<open>
  C5. After any sequence of \<open>push\<close> and \<open>try_pop\<close> applied to a new queue, hence after
  each operation of such a sequence: \<open>tail\<close> points to a node whose \<open>next\<close> is null and
  whose data slot is empty; following the \<open>next\<close> links from \<open>head\<close> arrives at \<open>tail\<close>,
  through nodes that each hold a value; and \<open>head\<close> equals \<open>tail\<close> exactly when there is
  no such node.
\<close>

theorem fine_queue_invariant:
  "\<exists>t n as vs.
      tail (snd (run_fine ops new_fine_queue)) = Some t
    \<and> heap (snd (run_fine ops new_fine_queue)) t = Some n
    \<and> qnext n = None \<and> qdata n = None
    \<and> qpath (heap (snd (run_fine ops new_fine_queue)))
        (head (snd (run_fine ops new_fine_queue))) as
        (tail (snd (run_fine ops new_fine_queue)))
    \<and> map (cell_at (heap (snd (run_fine ops new_fine_queue)))) as = map Some vs
    \<and> (head (snd (run_fine ops new_fine_queue)) = tail (snd (run_fine ops new_fine_queue)))
        = (vs = [])"
proof -
  from run_fine_inv [of ops] obtain t as vs
    where inv: "fq_inv (snd (run_fine ops new_fine_queue)) t as vs"
    by blast
  let ?q = "snd (run_fine ops new_fine_queue)"
  have "(head ?q = tail ?q) = (vs = [])"
    using fq_inv_head_is_tail [OF inv] fq_inv_lengths [OF inv] by auto
  moreover have "tail ?q = Some t" "heap ?q t = Some \<lparr>qdata = None, qnext = None\<rparr>"
    "qpath (heap ?q) (head ?q) as (tail ?q)" "map (cell_at (heap ?q)) as = map Some vs"
    using inv by (simp_all add: fq_inv_def)
  ultimately show ?thesis
    by (intro exI [of _ t] exI [of _ "\<lparr>qdata = None, qnext = None\<rparr>"] exI [of _ as] exI [of _ vs])
      simp
qed

text \<open>
  C9. For every sequence of \<open>push\<close> and \<open>try_pop\<close>, the queue with a dummy node and the
  queue under one mutex, both started new, show their caller the same observations:
  the same pointer from each \<open>try_pop\<close>, null at the same places.
\<close>

theorem fine_queue_refines_coarse_queue:
  "fst (run_fine ops new_fine_queue) = fst (run_coarse ops new_coarse_queue)"
  using run_simulation [OF fq_inv_new, of new_coarse_queue ops]
  by (simp add: new_coarse_queue_def)

section \<open>Properties of the Makefile\<close>

text \<open>
  C8, evaluated on the code. In a directory without built files the default goal writes
  \<open>hello\<close>, \<open>thread-wait\<close> and \<open>run-background\<close>; \<open>clean\<close>, run after it, removes
  none of them, its recipe naming only \<open>build/bin\<close>.
\<close>

theorem make_clean_leaves_artifacts:
  "make_all {} = {''hello'', ''thread-wait'', ''run-background''}
   \<and> make_clean (make_all {}) = {''hello'', ''thread-wait'', ''run-background''}"
  by (auto simp: make_all_def make_clean_def make_hello_def make_thread_waiting_def
      make_run_background_def rule_def gxx_def rm_f_def)

end
